theory Spec2Isabelle
  imports Main "HOL-Library.Word"
begin

section \<open>Data model of the comment list component\<close>

text \<open>
  The TypeScript interfaces \<^verbatim>\<open>User\<close> and \<^verbatim>\<open>Comment\<close> of the comment list.
  Optional properties (\<^verbatim>\<open>replies?\<close>, \<^verbatim>\<open>pinned?\<close>, ...) are options, \<open>None\<close> being
  the absent property; \<^verbatim>\<open>parentComment?: string | null\<close> has an absent and a null
  case. The selectors carry the prefix \<open>c_\<close> because \<open>text\<close> and \<open>id\<close> are taken.
\<close>

record user =
  u_id :: string
  username :: string
  email :: string
  role :: "string option"

datatype comment = Comment
  (c_id: string)
  (c_text: string)
  (c_user: user)
  (c_createdAt: string)
  (c_likes: "string list")
  (c_replies: "comment list option")
  (c_parentComment: "string option option")
  (c_pinned: "bool option")
  (c_edited: "bool option")
  (c_editedAt: "string option")

text \<open>
  \<^verbatim>\<open>Partial<Comment>\<close>: every key may be absent (\<open>None\<close>). A key that is present
  carries a value of the property's type, so for an optional property the
  present value may itself be undefined.
\<close>

record commentUpdates =
  p_id :: "string option"
  p_text :: "string option"
  p_user :: "user option"
  p_createdAt :: "string option"
  p_likes :: "string list option"
  p_replies :: "comment list option option"
  p_parentComment :: "string option option option"
  p_pinned :: "bool option option"
  p_edited :: "bool option option"
  p_editedAt :: "string option option"

definition noUpdates :: commentUpdates where
  "noUpdates = \<lparr>p_id = None, p_text = None, p_user = None, p_createdAt = None,
     p_likes = None, p_replies = None, p_parentComment = None, p_pinned = None,
     p_edited = None, p_editedAt = None\<rparr>"

text \<open>The object spread \<^verbatim>\<open>{ ...comment, replies: r }\<close>.\<close>

fun withReplies :: "comment \<Rightarrow> comment list option \<Rightarrow> comment" where
  "withReplies (Comment i t u ca l r pc pn e ea) r' = Comment i t u ca l r' pc pn e ea"

text \<open>The object spread \<^verbatim>\<open>{ ...comment, likes: newLikes }\<close>.\<close>

fun withLikes :: "comment \<Rightarrow> string list \<Rightarrow> comment" where
  "withLikes (Comment i t u ca l r pc pn e ea) l' = Comment i t u ca l' r pc pn e ea"

text \<open>The shallow merge \<^verbatim>\<open>{ ...comment, ...updates }\<close>: a present key wins.\<close>

definition orElse :: "'a option \<Rightarrow> 'a \<Rightarrow> 'a" where
  "orElse u old = (case u of None \<Rightarrow> old | Some v \<Rightarrow> v)"

fun applyUpdates :: "comment \<Rightarrow> commentUpdates \<Rightarrow> comment" where
  "applyUpdates (Comment i t u ca l r pc pn e ea) updates =
     Comment (orElse (p_id updates) i) (orElse (p_text updates) t)
       (orElse (p_user updates) u) (orElse (p_createdAt updates) ca)
       (orElse (p_likes updates) l) (orElse (p_replies updates) r)
       (orElse (p_parentComment updates) pc) (orElse (p_pinned updates) pn)
       (orElse (p_edited updates) e) (orElse (p_editedAt updates) ea)"

text \<open>JavaScript truthiness of a \<^verbatim>\<open>string | null\<close>: null and the empty string are falsy.\<close>

fun truthy :: "string option \<Rightarrow> bool" where
  "truthy None = False"
| "truthy (Some s) = (s \<noteq> [])"

section \<open>The tree operations of \<^verbatim>\<open>CommentList\<close>\<close>

lemma replies_smaller: "c_replies c = Some rs \<Longrightarrow> size_list size rs < size c"
  by (cases c) simp

lemma reply_call_decreases:
  assumes "x \<in> set comments" and "c_replies x = Some rs"
  shows "size_list size rs < size_list size comments"
proof -
  have "size_list size rs < size x" using assms(2) by (rule replies_smaller)
  also have "size x \<le> size_list size comments"
    using assms(1) by (simp add: size_list_estimation')
  finally show ?thesis .
qed

text \<open>
  \<^verbatim>\<open>updateComment\<close>: \<^verbatim>\<open>comments.map\<close> over the level; a comment whose id matches is
  merged with the updates and not descended into; any other comment that has a
  \<^verbatim>\<open>replies\<close> array (an empty array is truthy) is rebuilt over the updated replies.
\<close>

function updateComment :: "comment list \<Rightarrow> string \<Rightarrow> commentUpdates \<Rightarrow> comment list" where
  "updateComment comments commentId updates =
     map (\<lambda>comment.
        if c_id comment = commentId then applyUpdates comment updates
        else (case c_replies comment of
                Some rs \<Rightarrow> withReplies comment (Some (updateComment rs commentId updates))
              | None \<Rightarrow> comment)) comments"
  by pat_completeness auto
termination
  by (relation "measure (\<lambda>(cs, _, _). size_list size cs)")
     (simp_all add: reply_call_decreases)

function updateCommentLikes :: "comment list \<Rightarrow> string \<Rightarrow> string list \<Rightarrow> comment list" where
  "updateCommentLikes comments commentId newLikes =
     map (\<lambda>comment.
        if c_id comment = commentId then withLikes comment newLikes
        else (case c_replies comment of
                Some rs \<Rightarrow> withReplies comment (Some (updateCommentLikes rs commentId newLikes))
              | None \<Rightarrow> comment)) comments"
  by pat_completeness auto
termination
  by (relation "measure (\<lambda>(cs, _, _). size_list size cs)")
     (simp_all add: reply_call_decreases)

text \<open>
  \<^verbatim>\<open>addReplyToComment\<close>: the matching comment gets \<^verbatim>\<open>[...comment.replies, newComment]\<close>,
  or \<^verbatim>\<open>[newComment]\<close> when it had no \<^verbatim>\<open>replies\<close> property.
\<close>

function addReplyToComment :: "comment list \<Rightarrow> string \<Rightarrow> comment \<Rightarrow> comment list" where
  "addReplyToComment comments parentId newComment =
     map (\<lambda>comment.
        if c_id comment = parentId then
          withReplies comment
            (Some (case c_replies comment of
                     Some rs \<Rightarrow> rs @ [newComment]
                   | None \<Rightarrow> [newComment]))
        else (case c_replies comment of
                Some rs \<Rightarrow> withReplies comment (Some (addReplyToComment rs parentId newComment))
              | None \<Rightarrow> comment)) comments"
  by pat_completeness auto
termination
  by (relation "measure (\<lambda>(cs, _, _). size_list size cs)")
     (simp_all add: reply_call_decreases)

text \<open>
  \<^verbatim>\<open>handleDelete\<close>: once the DELETE request has succeeded, the handler replaces the
  comments by \<^verbatim>\<open>prevComments.filter(...)\<close>. The filter runs over the top level only
  and keeps a comment when its id differs from \<^verbatim>\<open>commentId\<close> and none of its direct
  replies has that id (\<^verbatim>\<open>comment.replies?.some\<close> is undefined, hence falsy, without
  \<^verbatim>\<open>replies\<close>).
\<close>

definition handleDelete_keeps :: "string \<Rightarrow> comment \<Rightarrow> bool" where
  "handleDelete_keeps commentId comment =
     (c_id comment \<noteq> commentId \<and>
      \<not> (case c_replies comment of
            Some rs \<Rightarrow> list_ex (\<lambda>reply. c_id reply = commentId) rs
          | None \<Rightarrow> False))"

definition handleDelete_update :: "comment list \<Rightarrow> string \<Rightarrow> comment list" where
  "handleDelete_update prevComments commentId =
     filter (handleDelete_keeps commentId) prevComments"

text \<open>
  \<^verbatim>\<open>findParentUsername\<close>: the guard \<^verbatim>\<open>if (!parentId) return null\<close>, then the loop over
  the level. A result of the recursive call is returned only when it is truthy
  (\<^verbatim>\<open>if (found) return found\<close>); otherwise the loop goes on with the next comment.
\<close>

function findParentUsername :: "comment list \<Rightarrow> string option \<Rightarrow> string option"
  and findParentUsername_for :: "comment list \<Rightarrow> string \<Rightarrow> string option" where
  "findParentUsername comments parentId =
     (case parentId of
        None \<Rightarrow> None
      | Some pid \<Rightarrow> if pid = [] then None else findParentUsername_for comments pid)"
| "findParentUsername_for [] pid = None"
| "findParentUsername_for (comment # rest) pid =
     (if c_id comment = pid then Some (username (c_user comment))
      else (case c_replies comment of
              Some rs \<Rightarrow>
                (let found = findParentUsername rs (Some pid)
                 in if truthy found then found else findParentUsername_for rest pid)
            | None \<Rightarrow> findParentUsername_for rest pid))"
  by pat_completeness auto
termination
  by (relation "measure (\<lambda>a. case a of
          Inl (cs, _) \<Rightarrow> 2 * size_list size cs + 1
        | Inr (cs, _) \<Rightarrow> 2 * size_list size cs)")
     (auto dest: replies_smaller)

text \<open>
  \<^verbatim>\<open>handleReplySubmit\<close> reads the \<^verbatim>\<open>replyingTo\<close> state: when it is falsy the new
  comment goes to the end of the top level, otherwise \<^verbatim>\<open>addReplyToComment\<close> runs;
  \<^verbatim>\<open>replyingTo\<close> is reset to null. The state fields \<^verbatim>\<open>comments\<close> and
  \<^verbatim>\<open>replyingTo\<close> carry the prefix \<open>s_\<close>.
\<close>

record commentListState =
  s_comments :: "comment list"
  s_replyingTo :: "string option"

definition handleReplySubmit :: "commentListState \<Rightarrow> comment \<Rightarrow> commentListState" where
  "handleReplySubmit st newComment =
     \<lparr>s_comments =
        (case s_replyingTo st of
           None \<Rightarrow> s_comments st @ [newComment]
         | Some pid \<Rightarrow>
             if pid = [] then s_comments st @ [newComment]
             else addReplyToComment (s_comments st) pid newComment),
      s_replyingTo = None\<rparr>"

section \<open>Notions used to state the properties\<close>

text \<open>All nodes of a forest in depth-first, left-to-right order, and their ids.\<close>

function allNodes :: "comment list \<Rightarrow> comment list" where
  "allNodes [] = []"
| "allNodes (c # cs) =
     c # (case c_replies c of Some rs \<Rightarrow> allNodes rs | None \<Rightarrow> []) @ allNodes cs"
  by pat_completeness auto
termination
  by (relation "measure (size_list size)") (auto dest: replies_smaller)

definition commentIds :: "comment list \<Rightarrow> string list" where
  "commentIds cs = map c_id (allNodes cs)"

text \<open>
  A position in a forest is a non-empty path of child indices. \<open>nodeAt\<close> is the
  node at a path, \<open>ancestorIds\<close> the ids of its proper ancestors.
\<close>

fun nodeAt :: "comment list \<Rightarrow> nat list \<Rightarrow> comment option" where
  "nodeAt cs [] = None"
| "nodeAt cs [i] = (if i < length cs then Some (cs ! i) else None)"
| "nodeAt cs (i # j # p) =
     (if i < length cs
      then (case c_replies (cs ! i) of Some rs \<Rightarrow> nodeAt rs (j # p) | None \<Rightarrow> None)
      else None)"

fun ancestorIds :: "comment list \<Rightarrow> nat list \<Rightarrow> string list" where
  "ancestorIds cs [] = []"
| "ancestorIds cs [i] = []"
| "ancestorIds cs (i # j # p) =
     (if i < length cs
      then c_id (cs ! i) #
           (case c_replies (cs ! i) of Some rs \<Rightarrow> ancestorIds rs (j # p) | None \<Rightarrow> [])
      else [])"

text \<open>\<open>mapNodes f\<close> applies \<open>f\<close> to every node of a forest, children first.\<close>

function mapNodes :: "(comment \<Rightarrow> comment) \<Rightarrow> comment list \<Rightarrow> comment list" where
  "mapNodes f [] = []"
| "mapNodes f (c # cs) =
     f (case c_replies c of
          Some rs \<Rightarrow> withReplies c (Some (mapNodes f rs))
        | None \<Rightarrow> c) # mapNodes f cs"
  by pat_completeness auto
termination
  by (relation "measure (\<lambda>(_, cs). size_list size cs)") (auto dest: replies_smaller)

fun withText :: "comment \<Rightarrow> string \<Rightarrow> comment" where
  "withText (Comment i t u ca l r pc pn e ea) t' = Comment i t' u ca l r pc pn e ea"

text \<open>
  The insertion as the specification words it: a depth-first search for the
  first node whose id is the parent id, which gets the new node as its last
  child; \<open>None\<close> when the search finds no such node.
\<close>

function insertAtFirst :: "string \<Rightarrow> comment \<Rightarrow> comment list \<Rightarrow> comment list option" where
  "insertAtFirst parentId newNode [] = None"
| "insertAtFirst parentId newNode (c # cs) =
     (if c_id c = parentId
      then Some (withReplies c
                   (Some ((case c_replies c of Some rs \<Rightarrow> rs | None \<Rightarrow> []) @ [newNode])) # cs)
      else (case (case c_replies c of
                    Some rs \<Rightarrow> insertAtFirst parentId newNode rs
                  | None \<Rightarrow> None) of
              Some rs' \<Rightarrow> Some (withReplies c (Some rs') # cs)
            | None \<Rightarrow> map_option (Cons c) (insertAtFirst parentId newNode cs)))"
  by pat_completeness auto
termination
  by (relation "measure (\<lambda>(_, _, cs). size_list size cs)") (auto dest: replies_smaller)

definition insertReply_spec :: "comment list \<Rightarrow> string \<Rightarrow> comment \<Rightarrow> comment list" where
  "insertReply_spec forest parentId newNode =
     (case insertAtFirst parentId newNode forest of
        None \<Rightarrow> forest
      | Some forest' \<Rightarrow> forest')"

text \<open>A comment with the given id, author name and replies, for concrete forests.\<close>

definition mkComment :: "string \<Rightarrow> string \<Rightarrow> comment list option \<Rightarrow> comment" where
  "mkComment i name rs =
     Comment i [] \<lparr>u_id = [], username = name, email = [], role = None\<rparr> [] [] rs
       None None None None"

text \<open>
  Concrete forests: the reply chain \<open>1 \<rightarrow> 2 \<rightarrow> 3\<close>, a thread whose nested reply has an
  empty author name, and a forest in which three nodes carry the id \<open>1\<close>.
\<close>

definition replyChain :: "comment list" where
  "replyChain =
     [mkComment ''1'' ''ann'' (Some
        [mkComment ''2'' ''bob'' (Some
           [mkComment ''3'' ''cy'' (Some [])])])]"

definition nestedEmptyName :: "comment list" where
  "nestedEmptyName = [mkComment ''1'' ''ann'' (Some [mkComment ''2'' [] (Some [])])]"

definition sharedId :: "comment list" where
  "sharedId =
     [mkComment ''1'' ''ann'' (Some [mkComment ''1'' ''bob'' (Some [])]),
      mkComment ''1'' ''cy'' (Some [])]"

section \<open>The comment input\<close>

text \<open>
  The text state of \<^verbatim>\<open>CommentInput\<close>. A JavaScript string is a sequence of UTF-16
  code units, and \<^verbatim>\<open>length\<close>, \<^verbatim>\<open>slice\<close> and \<^verbatim>\<open>trim\<close> work on code units. The textarea
  handler stores \<^verbatim>\<open>e.target.value.slice(0, maxLength)\<close>; the emoji handler of the
  comment list's input stores \<^verbatim>\<open>prev + emojiObject.emoji\<close> and closes the picker. The
  older input component has the textarea handler only.
\<close>

type_synonym jsString = "16 word list"

definition maxLength :: nat where
  "maxLength = 500"

record commentInputState =
  commentText :: jsString
  showEmojiPicker :: bool

definition onChange :: "commentInputState \<Rightarrow> jsString \<Rightarrow> commentInputState" where
  "onChange st v = st\<lparr>commentText := take maxLength v\<rparr>"

definition handleEmojiClick :: "commentInputState \<Rightarrow> jsString \<Rightarrow> commentInputState" where
  "handleEmojiClick st emoji =
     st\<lparr>commentText := commentText st @ emoji, showEmojiPicker := False\<rparr>"

datatype inputEvent = Change jsString | EmojiClick jsString

fun handleEvent :: "commentInputState \<Rightarrow> inputEvent \<Rightarrow> commentInputState" where
  "handleEvent st (Change v) = onChange st v"
| "handleEvent st (EmojiClick emoji) = handleEmojiClick st emoji"

definition initialInput :: commentInputState where
  "initialInput = \<lparr>commentText = [], showEmojiPicker = False\<rparr>"

text \<open>
  \<^verbatim>\<open>String.prototype.trim\<close> removes white space and line terminators at both ends.
  \<^verbatim>\<open>handleSubmit\<close> of a logged-in user sends \<^verbatim>\<open>commentText.trim()\<close> as the comment
  body unless it is empty.
\<close>

definition isWhiteSpace :: "16 word \<Rightarrow> bool" where
  "isWhiteSpace c =
     (c \<in> set [0x0009, 0x000A, 0x000B, 0x000C, 0x000D, 0x0020, 0x00A0, 0x1680,
               0x2000, 0x2001, 0x2002, 0x2003, 0x2004, 0x2005, 0x2006, 0x2007,
               0x2008, 0x2009, 0x200A, 0x2028, 0x2029, 0x202F, 0x205F, 0x3000, 0xFEFF])"

definition trim :: "jsString \<Rightarrow> jsString" where
  "trim s = rev (dropWhile isWhiteSpace (rev (dropWhile isWhiteSpace s)))"

definition submittedText :: "commentInputState \<Rightarrow> jsString option" where
  "submittedText st =
     (let body = trim (commentText st) in if body = [] then None else Some body)"

declare updateComment.simps [simp del]
declare updateCommentLikes.simps [simp del]
declare addReplyToComment.simps [simp del]

section \<open>Unfolding the operations on a level\<close>

lemma withReplies_same [simp]: "withReplies c (c_replies c) = c"
  by (cases c) simp

lemma withReplies_unchanged [simp]: "c_replies c = r \<Longrightarrow> withReplies c r = c"
  by (cases c) auto

lemma withReplies_sel [simp]:
  "c_id (withReplies c r) = c_id c"
  "c_replies (withReplies c r) = r"
  "c_user (withReplies c r) = c_user c"
  by (cases c; simp)+

lemma updateComment_Nil [simp]: "updateComment [] X u = []"
  by (simp add: updateComment.simps)

lemma updateComment_Cons [simp]:
  "updateComment (c # cs) X u =
     (if c_id c = X then applyUpdates c u
      else (case c_replies c of
              Some rs \<Rightarrow> withReplies c (Some (updateComment rs X u))
            | None \<Rightarrow> c)) # updateComment cs X u"
  using updateComment.simps [of "c # cs" X u] updateComment.simps [of cs X u] by simp

lemma updateCommentLikes_Nil [simp]: "updateCommentLikes [] X l = []"
  by (simp add: updateCommentLikes.simps)

lemma updateCommentLikes_Cons [simp]:
  "updateCommentLikes (c # cs) X l =
     (if c_id c = X then withLikes c l
      else (case c_replies c of
              Some rs \<Rightarrow> withReplies c (Some (updateCommentLikes rs X l))
            | None \<Rightarrow> c)) # updateCommentLikes cs X l"
  using updateCommentLikes.simps [of "c # cs" X l] updateCommentLikes.simps [of cs X l] by simp

lemma addReplyToComment_Nil [simp]: "addReplyToComment [] P n = []"
  by (simp add: addReplyToComment.simps)

lemma addReplyToComment_Cons [simp]:
  "addReplyToComment (c # cs) P n =
     (if c_id c = P then
        withReplies c (Some (case c_replies c of Some rs \<Rightarrow> rs @ [n] | None \<Rightarrow> [n]))
      else (case c_replies c of
              Some rs \<Rightarrow> withReplies c (Some (addReplyToComment rs P n))
            | None \<Rightarrow> c)) # addReplyToComment cs P n"
  using addReplyToComment.simps [of "c # cs" P n] addReplyToComment.simps [of cs P n] by simp

lemma commentIds_Nil [simp]: "commentIds [] = []"
  by (simp add: commentIds_def)

lemma commentIds_Cons [simp]:
  "commentIds (c # cs) =
     c_id c # (case c_replies c of Some rs \<Rightarrow> commentIds rs | None \<Rightarrow> []) @ commentIds cs"
  by (simp add: commentIds_def split: option.splits)

lemma updateComment_absent: "X \<notin> set (commentIds F) \<Longrightarrow> updateComment F X u = F"
  by (induction F rule: allNodes.induct) (auto split: option.splits)

lemma updateCommentLikes_absent: "X \<notin> set (commentIds F) \<Longrightarrow> updateCommentLikes F X l = F"
  by (induction F rule: allNodes.induct) (auto split: option.splits)

lemma addReplyToComment_absent: "X \<notin> set (commentIds F) \<Longrightarrow> addReplyToComment F X n = F"
  by (induction F rule: allNodes.induct) (auto split: option.splits)

lemma top_ids_subset: "c \<in> set F \<Longrightarrow> c_id c \<in> set (commentIds F)"
  by (induction F rule: allNodes.induct) (auto split: option.splits)

lemma reply_ids_subset:
  "c \<in> set F \<Longrightarrow> c_replies c = Some rs \<Longrightarrow> r \<in> set rs \<Longrightarrow> c_id r \<in> set (commentIds F)"
  by (induction F rule: allNodes.induct) (auto split: option.splits dest: top_ids_subset)

lemma handleDelete_update_absent: "X \<notin> set (commentIds F) \<Longrightarrow> handleDelete_update F X = F"
  unfolding handleDelete_update_def
  by (rule filter_True) (auto simp: handleDelete_keeps_def list_ex_iff split: option.splits dest: top_ids_subset reply_ids_subset)

section \<open>The like update is the general update restricted to likes\<close>

lemma applyUpdates_likes_only:
  "applyUpdates c (noUpdates\<lparr>p_likes := Some newLikes\<rparr>) = withLikes c newLikes"
  by (cases c) (simp add: noUpdates_def orElse_def)

text \<open>
  C6: for every forest, id and likes list, \<^verbatim>\<open>updateCommentLikes\<close> returns the same
  forest as \<^verbatim>\<open>updateComment\<close> called with the updates object \<^verbatim>\<open>{ likes: newLikes }\<close>.
\<close>

theorem updateCommentLikes_is_updateComment:
  "updateCommentLikes comments commentId newLikes =
   updateComment comments commentId (noUpdates\<lparr>p_likes := Some newLikes\<rparr>)"
proof (induction comments commentId newLikes rule: updateCommentLikes.induct)
  case (1 comments commentId newLikes)
  have "updateCommentLikes comments commentId newLikes =
     map (\<lambda>comment.
        if c_id comment = commentId then withLikes comment newLikes
        else (case c_replies comment of
                Some rs \<Rightarrow> withReplies comment (Some (updateCommentLikes rs commentId newLikes))
              | None \<Rightarrow> comment)) comments"
    by (rule updateCommentLikes.simps)
  also have "\<dots> =
     map (\<lambda>comment.
        if c_id comment = commentId
        then applyUpdates comment (noUpdates\<lparr>p_likes := Some newLikes\<rparr>)
        else (case c_replies comment of
                Some rs \<Rightarrow> withReplies comment
                  (Some (updateComment rs commentId (noUpdates\<lparr>p_likes := Some newLikes\<rparr>)))
              | None \<Rightarrow> comment)) comments"
    using "1.IH" by (auto simp: applyUpdates_likes_only split: option.splits)
  also have "\<dots> = updateComment comments commentId (noUpdates\<lparr>p_likes := Some newLikes\<rparr>)"
    by (rule updateComment.simps [symmetric])
  finally show ?case .
qed

section \<open>An id that matches no node\<close>

text \<open>
  C4: when no node of the forest has the id \<open>X\<close>, each of the four operations
  (\<^verbatim>\<open>addReplyToComment\<close>, \<^verbatim>\<open>updateComment\<close>, \<^verbatim>\<open>updateCommentLikes\<close> and the filter
  of \<^verbatim>\<open>handleDelete\<close>) returns the forest it was given. The operations are total
  functions without an error result: none of them has a path that throws.
\<close>

theorem absent_id_is_noop:
  assumes "X \<notin> set (commentIds F)"
  shows "addReplyToComment F X n = F \<and> updateComment F X u = F \<and>
         updateCommentLikes F X l = F \<and> handleDelete_update F X = F"
  using assms
  by (simp add: updateComment_absent updateCommentLikes_absent addReplyToComment_absent
      handleDelete_update_absent)

theorem absent_id_is_noop_witness:
  "''9'' \<notin> set (commentIds replyChain) \<and>
   addReplyToComment replyChain ''9'' (mkComment ''4'' ''dee'' (Some [])) = replyChain \<and>
   updateComment replyChain ''9'' (noUpdates\<lparr>p_text := Some ''b''\<rparr>) = replyChain \<and>
   updateCommentLikes replyChain ''9'' [''u''] = replyChain \<and>
   handleDelete_update replyChain ''9'' = replyChain"
proof -
  have h: "''9'' \<notin> set (commentIds replyChain)"
    by (simp add: replyChain_def mkComment_def)
  show ?thesis
    using h absent_id_is_noop [OF h, of "mkComment ''4'' ''dee'' (Some [])"
        "noUpdates\<lparr>p_text := Some ''b''\<rparr>" "[''u'']"]
    by simp
qed

section \<open>Editing the text of one comment\<close>

lemma withText_sel [simp]:
  "c_id (withText c t) = c_id c"
  "c_replies (withText c t) = c_replies c"
  by (cases c; simp)+

lemma applyUpdates_text_only:
  "applyUpdates c (noUpdates\<lparr>p_text := Some b\<rparr>) = withText c b"
  by (cases c) (simp add: noUpdates_def orElse_def)

lemma mapNodes_absent:
  "X \<notin> set (commentIds F) \<Longrightarrow> (\<And>c. c_id c \<noteq> X \<Longrightarrow> f c = c) \<Longrightarrow> mapNodes f F = F"
  by (induction F rule: allNodes.induct) (auto split: option.splits)

lemma updateComment_text_mapNodes:
  "distinct (commentIds F) \<Longrightarrow>
   updateComment F X (noUpdates\<lparr>p_text := Some b\<rparr>) =
   mapNodes (\<lambda>c. if c_id c = X then withText c b else c) F"
proof (induction F rule: allNodes.induct)
  case 1
  show ?case by simp
next
  case (2 c cs)
  let ?f = "\<lambda>c. if c_id c = X then withText c b else c"
  let ?u = "noUpdates\<lparr>p_text := Some b\<rparr>"
  have tl: "updateComment cs X ?u = mapNodes ?f cs"
    using 2 by (auto split: option.splits)
  show ?case
  proof (cases "c_id c = X")
    case True
    have "mapNodes ?f rs = rs" if "c_replies c = Some rs" for rs
      using that 2(3) True by (intro mapNodes_absent) auto
    then show ?thesis using True tl
      by (auto simp: applyUpdates_text_only split: option.splits)
  next
    case False
    have "updateComment rs X ?u = mapNodes ?f rs" if "c_replies c = Some rs" for rs
      using that 2 by auto
    then show ?thesis using False tl by (auto split: option.splits)
  qed
qed

lemma one_match:
  "distinct (map g ns) \<Longrightarrow> x \<in> set (map g ns) \<Longrightarrow> length (filter (\<lambda>c. g c = x) ns) = 1"
proof (induction ns)
  case Nil
  then show ?case by simp
next
  case (Cons a ns)
  show ?case
  proof (cases "g a = x")
    case True
    then have "filter (\<lambda>c. g c = x) ns = []" using Cons.prems(1) by (auto simp: filter_empty_conv image_iff)
    then show ?thesis using True by simp
  next
    case False
    then show ?thesis using Cons by auto
  qed
qed

text \<open>
  C5: in a forest with unique ids that contains the id \<open>X\<close>, \<^verbatim>\<open>updateComment\<close> with
  the updates object \<^verbatim>\<open>{ text: b }\<close> returns the forest in which the text of the
  node with id \<open>X\<close> is \<open>b\<close> and every other field of every node, every replies
  sequence and every position is as before; exactly one node has the id \<open>X\<close>.
\<close>

theorem updateComment_text_frame:
  assumes "distinct (commentIds F)" and "X \<in> set (commentIds F)"
  shows "updateComment F X (noUpdates\<lparr>p_text := Some b\<rparr>) =
           mapNodes (\<lambda>c. if c_id c = X then withText c b else c) F \<and>
         length (filter (\<lambda>c. c_id c = X) (allNodes F)) = 1"
  using assms updateComment_text_mapNodes [of F X b] one_match [of c_id "allNodes F" X]
  by (simp add: commentIds_def)

theorem updateComment_text_frame_witness:
  "distinct (commentIds replyChain) \<and> ''2'' \<in> set (commentIds replyChain) \<and>
   updateComment replyChain ''2'' (noUpdates\<lparr>p_text := Some ''b''\<rparr>) =
     [mkComment ''1'' ''ann'' (Some
        [withText (mkComment ''2'' ''bob'' (Some [mkComment ''3'' ''cy'' (Some [])])) ''b''])] \<and>
   length (filter (\<lambda>c. c_id c = ''2'') (allNodes replyChain)) = 1"
proof -
  have h1: "distinct (commentIds replyChain)"
    by (simp add: replyChain_def mkComment_def)
  have h2: "''2'' \<in> set (commentIds replyChain)"
    by (simp add: replyChain_def mkComment_def)
  have m: "mapNodes (\<lambda>c. if c_id c = ''2'' then withText c ''b'' else c) replyChain =
     [mkComment ''1'' ''ann'' (Some
        [withText (mkComment ''2'' ''bob'' (Some [mkComment ''3'' ''cy'' (Some [])])) ''b''])]"
    by (simp add: replyChain_def mkComment_def)
  show ?thesis
    using h1 h2 m updateComment_text_frame [OF h1 h2, of "''b''"] by simp
qed

section \<open>Adding a reply\<close>

lemma insertAtFirst_absent:
  "P \<notin> set (commentIds F) \<Longrightarrow> insertAtFirst P n F = None"
  by (induction F rule: allNodes.induct) (auto split: option.splits)

lemma insertAtFirst_present:
  "distinct (commentIds F) \<Longrightarrow> P \<in> set (commentIds F) \<Longrightarrow>
   insertAtFirst P n F = Some (addReplyToComment F P n)"
proof (induction F rule: allNodes.induct)
  case 1
  then show ?case by simp
next
  case (2 c cs)
  show ?case
  proof (cases "c_id c = P")
    case True
    then have "P \<notin> set (commentIds cs)" using 2(3) by auto
    then have "addReplyToComment cs P n = cs" by (rule addReplyToComment_absent)
    then show ?thesis using True by (auto split: option.splits)
  next
    case False
    show ?thesis
    proof (cases "c_replies c")
      case None
      then show ?thesis using False 2 by (auto split: option.splits)
    next
      case (Some rs)
      show ?thesis
      proof (cases "P \<in> set (commentIds rs)")
        case True
        then have "P \<notin> set (commentIds cs)" using 2(3) Some by auto
        then have "addReplyToComment cs P n = cs" by (rule addReplyToComment_absent)
        moreover have "insertAtFirst P n rs = Some (addReplyToComment rs P n)"
          using 2(1) [OF Some] 2(3) Some True by auto
        ultimately show ?thesis using False Some by simp
      next
        case F2: False
        then have "insertAtFirst P n rs = None" by (rule insertAtFirst_absent)
        moreover have "addReplyToComment rs P n = rs" using F2 by (rule addReplyToComment_absent)
        moreover have "insertAtFirst P n cs = Some (addReplyToComment cs P n)"
          using 2(2) 2(3) 2(4) False Some F2 by auto
        ultimately show ?thesis using False Some by simp
      qed
    qed
  qed
qed

lemma addReplyToComment_spec:
  "distinct (commentIds F) \<Longrightarrow> addReplyToComment F P n = insertReply_spec F P n"
  by (cases "P \<in> set (commentIds F)")
     (simp_all add: insertReply_spec_def insertAtFirst_present insertAtFirst_absent
        addReplyToComment_absent)

text \<open>
  C7: in a forest with unique ids \<^verbatim>\<open>addReplyToComment\<close> does what the depth-first
  insertion does: the node whose id is the parent id gets the new node as its
  last reply, the earlier replies keeping their order. \<^verbatim>\<open>handleReplySubmit\<close> with
  \<^verbatim>\<open>replyingTo\<close> null puts the new node at the end of the top level, and with a
  non-empty parent id it is \<^verbatim>\<open>addReplyToComment\<close>. On the forest of one comment
  \<open>1\<close> without replies, adding \<open>2\<close> under \<open>1\<close> gives \<open>1\<close> with the single reply \<open>2\<close>.
\<close>

theorem addReplyToComment_appends_last:
  assumes "distinct (commentIds F)"
  shows "addReplyToComment F P n = insertReply_spec F P n \<and>
         s_comments (handleReplySubmit \<lparr>s_comments = F, s_replyingTo = None\<rparr> n) = F @ [n] \<and>
         (P \<noteq> [] \<longrightarrow>
            s_comments (handleReplySubmit \<lparr>s_comments = F, s_replyingTo = Some P\<rparr> n) =
            addReplyToComment F P n) \<and>
         addReplyToComment [mkComment ''1'' a (Some [])] ''1'' (mkComment ''2'' b (Some [])) =
           [mkComment ''1'' a (Some [mkComment ''2'' b (Some [])])]"
  using assms
  by (simp add: addReplyToComment_spec handleReplySubmit_def mkComment_def)

theorem addReplyToComment_appends_last_witness:
  "distinct (commentIds replyChain) \<and> ''2'' \<noteq> [] \<and>
   addReplyToComment replyChain ''2'' (mkComment ''4'' ''dee'' (Some [])) =
     [mkComment ''1'' ''ann'' (Some
        [mkComment ''2'' ''bob'' (Some
           [mkComment ''3'' ''cy'' (Some []), mkComment ''4'' ''dee'' (Some [])])])] \<and>
   insertReply_spec replyChain ''2'' (mkComment ''4'' ''dee'' (Some [])) =
     [mkComment ''1'' ''ann'' (Some
        [mkComment ''2'' ''bob'' (Some
           [mkComment ''3'' ''cy'' (Some []), mkComment ''4'' ''dee'' (Some [])])])] \<and>
   s_comments (handleReplySubmit \<lparr>s_comments = replyChain, s_replyingTo = Some ''2''\<rparr>
      (mkComment ''4'' ''dee'' (Some []))) =
     addReplyToComment replyChain ''2'' (mkComment ''4'' ''dee'' (Some []))"
proof -
  have h: "distinct (commentIds replyChain)"
    by (simp add: replyChain_def mkComment_def)
  have e: "insertReply_spec replyChain ''2'' (mkComment ''4'' ''dee'' (Some [])) =
     [mkComment ''1'' ''ann'' (Some
        [mkComment ''2'' ''bob'' (Some
           [mkComment ''3'' ''cy'' (Some []), mkComment ''4'' ''dee'' (Some [])])])]"
    by (simp add: insertReply_spec_def replyChain_def mkComment_def)
  show ?thesis
    using h e
      addReplyToComment_appends_last [OF h, of "''2''" "mkComment ''4'' ''dee'' (Some [])"]
    by simp
qed

section \<open>Looking up the author of a parent comment\<close>

lemma allNodes_ids: "c \<in> set (allNodes F) \<Longrightarrow> c_id c \<in> set (commentIds F)"
  by (simp add: commentIds_def)

lemma findParentUsername_Some [simp]:
  "p \<noteq> [] \<Longrightarrow> findParentUsername F (Some p) = findParentUsername_for F p"
  by simp

lemma findParentUsername_for_absent:
  "p \<notin> set (commentIds F) \<Longrightarrow> findParentUsername_for F p = None"
  by (induction F rule: allNodes.induct) (auto split: option.splits)

lemma findParentUsername_for_present:
  "distinct (commentIds F) \<Longrightarrow> c \<in> set (allNodes F) \<Longrightarrow> c_id c = p \<Longrightarrow>
   username (c_user c) \<noteq> [] \<Longrightarrow> p \<noteq> [] \<Longrightarrow>
   findParentUsername_for F p = Some (username (c_user c))"
proof (induction F rule: allNodes.induct)
  case 1
  then show ?case by simp
next
  case (2 c0 cs)
  show ?case
  proof (cases "c = c0")
    case True
    then show ?thesis using 2(5) by simp
  next
    case False
    show ?thesis
    proof (cases "c_replies c0")
      case None
      then have "c \<in> set (allNodes cs)" using 2(4) False by simp
      moreover have "c_id c0 \<noteq> p" using 2(3) 2(5) calculation None by (auto simp: commentIds_def)
      ultimately show ?thesis using 2 None by simp
    next
      case (Some rs)
      show ?thesis
      proof (cases "c \<in> set (allNodes rs)")
        case True
        then have "p \<in> set (commentIds rs)" using 2(5) by (auto simp: commentIds_def)
        then have "c_id c0 \<noteq> p" using 2(3) Some by auto
        moreover have "findParentUsername_for rs p = Some (username (c_user c))"
          using 2(1) [OF Some] 2(3) Some True 2(5) 2(6) 2(7) by simp
        ultimately show ?thesis using Some 2(6) 2(7) by simp
      next
        case F2: False
        then have in_cs: "c \<in> set (allNodes cs)" using 2(4) False Some by simp
        then have pcs: "p \<in> set (commentIds cs)" using 2(5) by (auto simp: commentIds_def)
        then have "c_id c0 \<noteq> p" using 2(3) by auto
        moreover have "p \<notin> set (commentIds rs)" using 2(3) Some pcs by auto
        then have "findParentUsername_for rs p = None" by (rule findParentUsername_for_absent)
        moreover have "findParentUsername_for cs p = Some (username (c_user c))"
          using 2(2) 2(3) in_cs 2(5) 2(6) 2(7) Some by simp
        ultimately show ?thesis using Some 2(7) by simp
      qed
    qed
  qed
qed

lemma findParentUsername_for_top:
  "distinct (commentIds F) \<Longrightarrow> c \<in> set F \<Longrightarrow> c_id c = p \<Longrightarrow> p \<noteq> [] \<Longrightarrow>
   findParentUsername_for F p = Some (username (c_user c))"
proof (induction F)
  case Nil
  then show ?case by simp
next
  case (Cons c0 cs)
  show ?case
  proof (cases "c = c0")
    case True
    then show ?thesis using Cons.prems(3) by simp
  next
    case False
    then have in_cs: "c \<in> set cs" using Cons.prems(2) by simp
    then have pcs: "p \<in> set (commentIds cs)"
      using Cons.prems(3) top_ids_subset by blast
    then have ne: "c_id c0 \<noteq> p" using Cons.prems(1) by auto
    have tl: "findParentUsername_for cs p = Some (username (c_user c))"
      using Cons.IH Cons.prems in_cs by (auto split: option.splits)
    show ?thesis
    proof (cases "c_replies c0")
      case None
      then show ?thesis using ne tl by simp
    next
      case (Some rs)
      then have "p \<notin> set (commentIds rs)" using Cons.prems(1) pcs by auto
      then have "findParentUsername_for rs p = None" by (rule findParentUsername_for_absent)
      then show ?thesis using ne tl Some Cons.prems(4) by simp
    qed
  qed
qed

text \<open>
  What the search does return: in a forest with unique ids and for a non-empty
  id, the author name of the node with that id when the node is a top-level
  comment or its author name is not empty; and null for every id that no node
  of the forest has.
\<close>

lemma findParentUsername_present:
  assumes "distinct (commentIds F)" and "p \<noteq> []"
    and "c \<in> set (allNodes F)" and "c_id c = p"
    and "c \<in> set F \<or> username (c_user c) \<noteq> []"
  shows "findParentUsername F (Some p) = Some (username (c_user c))"
  using assms
  by (auto simp: findParentUsername_for_present findParentUsername_for_top)

lemma findParentUsername_absent:
  assumes "p \<notin> set (commentIds F)"
  shows "findParentUsername F (Some p) = None"
  using assms by (simp add: findParentUsername_for_absent)

text \<open>
  C8: in the forest \<open>nestedEmptyName\<close>, whose ids are unique, the node with id \<open>2\<close>
  is a reply of the comment \<open>1\<close> and its author name is the empty string. The
  search for \<open>2\<close> returns null, not that author name: the recursive call returns
  the empty string, \<^verbatim>\<open>if (found)\<close> takes it for not found, and the loop ends
  without a result. The same node as a top-level comment is found: there the
  search returns its author name, the empty string.
\<close>

theorem findParentUsername_nested_empty_name:
  "distinct (commentIds nestedEmptyName) \<and>
   nodeAt nestedEmptyName [0, 0] = Some (mkComment ''2'' [] (Some [])) \<and>
   c_id (mkComment ''2'' [] (Some [])) = ''2'' \<and>
   username (c_user (mkComment ''2'' [] (Some []))) = [] \<and>
   findParentUsername nestedEmptyName (Some ''2'') = None \<and>
   findParentUsername nestedEmptyName (Some ''2'') \<noteq>
     Some (username (c_user (mkComment ''2'' [] (Some [])))) \<and>
   findParentUsername [mkComment ''2'' [] (Some [])] (Some ''2'') = Some []"
  by (simp add: nestedEmptyName_def mkComment_def)

section \<open>Nodes that share an id\<close>

lemma length_updateComment [simp]: "length (updateComment F X u) = length F"
  by (subst updateComment.simps) simp

lemma length_updateCommentLikes [simp]: "length (updateCommentLikes F X l) = length F"
  by (subst updateCommentLikes.simps) simp

lemma length_addReplyToComment [simp]: "length (addReplyToComment F P n) = length F"
  by (subst addReplyToComment.simps) simp

lemma nth_updateComment:
  "i < length F \<Longrightarrow> updateComment F X u ! i =
     (if c_id (F ! i) = X then applyUpdates (F ! i) u
      else (case c_replies (F ! i) of
              Some rs \<Rightarrow> withReplies (F ! i) (Some (updateComment rs X u))
            | None \<Rightarrow> F ! i))"
  by (subst updateComment.simps) simp

lemma nth_updateCommentLikes:
  "i < length F \<Longrightarrow> updateCommentLikes F X l ! i =
     (if c_id (F ! i) = X then withLikes (F ! i) l
      else (case c_replies (F ! i) of
              Some rs \<Rightarrow> withReplies (F ! i) (Some (updateCommentLikes rs X l))
            | None \<Rightarrow> F ! i))"
  by (subst updateCommentLikes.simps) simp

lemma nth_addReplyToComment:
  "i < length F \<Longrightarrow> addReplyToComment F P n ! i =
     (if c_id (F ! i) = P then
        withReplies (F ! i) (Some (case c_replies (F ! i) of Some rs \<Rightarrow> rs @ [n] | None \<Rightarrow> [n]))
      else (case c_replies (F ! i) of
              Some rs \<Rightarrow> withReplies (F ! i) (Some (addReplyToComment rs P n))
            | None \<Rightarrow> F ! i))"
  by (subst addReplyToComment.simps) simp

lemma withLikes_sel [simp]:
  "c_id (withLikes c l) = c_id c"
  "c_replies (withLikes c l) = c_replies c"
  by (cases c; simp)+

lemma withReplies_withReplies [simp]: "withReplies (withReplies c r) r' = withReplies c r'"
  by (cases c) simp

lemma applyUpdates_replies [simp]:
  "p_replies u = None \<Longrightarrow> c_replies (applyUpdates c u) = c_replies c"
  by (cases c) (simp add: orElse_def)

lemma nodeAt_append: "nodeAt rs p = Some c \<Longrightarrow> nodeAt (rs @ ys) p = Some c"
  by (induction rs p rule: nodeAt.induct) (auto simp: nth_append split: if_splits)

lemma nodeAt_updateCommentLikes:
  "nodeAt F p = Some c \<Longrightarrow>
   \<exists>c'. nodeAt (updateCommentLikes F X l) p = Some c' \<and>
     (if X \<in> set (ancestorIds F p) then c' = c
      else if c_id c = X then c' = withLikes c l
      else withReplies c' None = withReplies c None \<and>
           map_option length (c_replies c') = map_option length (c_replies c))"
proof (induction F p arbitrary: c rule: nodeAt.induct)
  case (1 cs)
  then show ?case by simp
next
  case (2 cs i)
  then show ?case
    by (auto simp: nth_updateCommentLikes split: if_splits option.splits)
next
  case (3 cs i j p)
  from "3.prems" obtain rs where i: "i < length cs" and rs: "c_replies (cs ! i) = Some rs"
    and at: "nodeAt rs (j # p) = Some c"
    by (auto split: if_splits option.splits)
  show ?case
  proof (cases "c_id (cs ! i) = X")
    case True
    then show ?thesis using i rs at by (simp add: nth_updateCommentLikes)
  next
    case False
    from "3.IH" [OF i rs at] obtain c' where
      "nodeAt (updateCommentLikes rs X l) (j # p) = Some c'"
      "if X \<in> set (ancestorIds rs (j # p)) then c' = c
       else if c_id c = X then c' = withLikes c l
       else withReplies c' None = withReplies c None \<and>
           map_option length (c_replies c') = map_option length (c_replies c)"
      by blast
    then show ?thesis using False i rs by (simp add: nth_updateCommentLikes)
  qed
qed

lemma nodeAt_addReplyToComment:
  "nodeAt F p = Some c \<Longrightarrow>
   \<exists>c'. nodeAt (addReplyToComment F X n) p = Some c' \<and>
     (if X \<in> set (ancestorIds F p) then c' = c
      else if c_id c = X
        then c' = withReplies c (Some ((case c_replies c of Some rs \<Rightarrow> rs | None \<Rightarrow> []) @ [n]))
      else withReplies c' None = withReplies c None \<and>
           map_option length (c_replies c') = map_option length (c_replies c))"
proof (induction F p arbitrary: c rule: nodeAt.induct)
  case (1 cs)
  then show ?case by simp
next
  case (2 cs i)
  then show ?case
    by (auto simp: nth_addReplyToComment split: if_splits option.splits)
next
  case (3 cs i j p)
  from "3.prems" obtain rs where i: "i < length cs" and rs: "c_replies (cs ! i) = Some rs"
    and at: "nodeAt rs (j # p) = Some c"
    by (auto split: if_splits option.splits)
  show ?case
  proof (cases "c_id (cs ! i) = X")
    case True
    then show ?thesis using i rs nodeAt_append [OF at, of "[n]"]
      by (simp add: nth_addReplyToComment)
  next
    case False
    from "3.IH" [OF i rs at] obtain c' where
      "nodeAt (addReplyToComment rs X n) (j # p) = Some c'"
      "if X \<in> set (ancestorIds rs (j # p)) then c' = c
       else if c_id c = X
         then c' = withReplies c (Some ((case c_replies c of Some rs \<Rightarrow> rs | None \<Rightarrow> []) @ [n]))
       else withReplies c' None = withReplies c None \<and>
           map_option length (c_replies c') = map_option length (c_replies c)"
      by blast
    then show ?thesis using False i rs by (simp add: nth_addReplyToComment)
  qed
qed

lemma nodeAt_updateComment:
  "nodeAt F p = Some c \<Longrightarrow> p_replies u = None \<Longrightarrow>
   \<exists>c'. nodeAt (updateComment F X u) p = Some c' \<and>
     (if X \<in> set (ancestorIds F p) then c' = c
      else if c_id c = X then c' = applyUpdates c u
      else withReplies c' None = withReplies c None \<and>
           map_option length (c_replies c') = map_option length (c_replies c))"
proof (induction F p arbitrary: c rule: nodeAt.induct)
  case (1 cs)
  then show ?case by simp
next
  case (2 cs i)
  then show ?case
    by (auto simp: nth_updateComment split: if_splits option.splits)
next
  case (3 cs i j p)
  from "3.prems" obtain rs where i: "i < length cs" and rs: "c_replies (cs ! i) = Some rs"
    and at: "nodeAt rs (j # p) = Some c"
    by (auto split: if_splits option.splits)
  show ?case
  proof (cases "c_id (cs ! i) = X")
    case True
    then show ?thesis using i rs at "3.prems"(2) by (simp add: nth_updateComment)
  next
    case False
    from "3.IH" [OF i rs at "3.prems"(2)] obtain c' where
      "nodeAt (updateComment rs X u) (j # p) = Some c'"
      "if X \<in> set (ancestorIds rs (j # p)) then c' = c
       else if c_id c = X then c' = applyUpdates c u
       else withReplies c' None = withReplies c None \<and>
           map_option length (c_replies c') = map_option length (c_replies c)"
      by blast
    then show ?thesis using False i rs by (simp add: nth_updateComment)
  qed
qed

text \<open>
  The claim as worded fails on a forest whose two top-level comments carry the
  same id: each of the three operations changes the second one as well.
\<close>

theorem same_id_second_node_changed:
  "c_id (sharedId ! 0) = ''1'' \<and> c_id (sharedId ! Suc 0) = ''1'' \<and>
   nodeAt (addReplyToComment sharedId ''1'' (mkComment ''2'' ''dee'' (Some []))) [Suc 0] \<noteq>
     nodeAt sharedId [Suc 0] \<and>
   nodeAt (updateComment sharedId ''1'' (noUpdates\<lparr>p_text := Some ''b''\<rparr>)) [Suc 0] \<noteq>
     nodeAt sharedId [Suc 0] \<and>
   nodeAt (updateCommentLikes sharedId ''1'' [''u'']) [Suc 0] \<noteq> nodeAt sharedId [Suc 0]"
  by (simp add: sharedId_def mkComment_def noUpdates_def orElse_def)

text \<open>
  C3, amended: in any forest, ids shared or not, each of \<^verbatim>\<open>addReplyToComment\<close>,
  \<^verbatim>\<open>updateComment\<close> (with an updates object without a \<^verbatim>\<open>replies\<close> key) and
  \<^verbatim>\<open>updateCommentLikes\<close> applied with the id \<open>X\<close> changes every node that has the id
  \<open>X\<close> and no proper ancestor with the id \<open>X\<close>. A node below a node with the id \<open>X\<close>
  is left as it was, also when it has the id \<open>X\<close> itself; any other node keeps
  its own fields and its number of replies.
\<close>

theorem same_id_outermost_affected:
  assumes "nodeAt F p = Some c" and "p_replies u = None"
  shows "(\<exists>c'. nodeAt (addReplyToComment F X n) p = Some c' \<and>
            (if X \<in> set (ancestorIds F p) then c' = c
             else if c_id c = X
               then c' = withReplies c
                      (Some ((case c_replies c of Some rs \<Rightarrow> rs | None \<Rightarrow> []) @ [n]))
             else withReplies c' None = withReplies c None \<and>
               map_option length (c_replies c') = map_option length (c_replies c))) \<and>
         (\<exists>c'. nodeAt (updateComment F X u) p = Some c' \<and>
            (if X \<in> set (ancestorIds F p) then c' = c
             else if c_id c = X then c' = applyUpdates c u
             else withReplies c' None = withReplies c None \<and>
               map_option length (c_replies c') = map_option length (c_replies c))) \<and>
         (\<exists>c'. nodeAt (updateCommentLikes F X l) p = Some c' \<and>
            (if X \<in> set (ancestorIds F p) then c' = c
             else if c_id c = X then c' = withLikes c l
             else withReplies c' None = withReplies c None \<and>
               map_option length (c_replies c') = map_option length (c_replies c)))"
  using assms nodeAt_addReplyToComment [of F p c X n] nodeAt_updateComment [of F p c u X]
    nodeAt_updateCommentLikes [of F p c X l]
  by simp

theorem same_id_outermost_affected_witness:
  "nodeAt sharedId [0, 0] = Some (mkComment ''1'' ''bob'' (Some [])) \<and>
   p_replies (noUpdates\<lparr>p_text := Some ''b''\<rparr>) = None \<and>
   nodeAt (addReplyToComment sharedId ''1'' (mkComment ''2'' ''dee'' (Some []))) [0, 0] =
     Some (mkComment ''1'' ''bob'' (Some [])) \<and>
   nodeAt (updateComment sharedId ''1'' (noUpdates\<lparr>p_text := Some ''b''\<rparr>)) [0, 0] =
     Some (mkComment ''1'' ''bob'' (Some [])) \<and>
   nodeAt (updateCommentLikes sharedId ''1'' [''u'']) [0, 0] =
     Some (mkComment ''1'' ''bob'' (Some []))"
proof -
  have h1: "nodeAt sharedId [0, 0] = Some (mkComment ''1'' ''bob'' (Some []))"
    by (simp add: sharedId_def mkComment_def)
  have h2: "p_replies (noUpdates\<lparr>p_text := Some ''b''\<rparr>) = None"
    by (simp add: noUpdates_def)
  have anc: "''1'' \<in> set (ancestorIds sharedId [0, 0])"
    by (simp add: sharedId_def mkComment_def)
  show ?thesis
    using h1 h2 anc
      same_id_outermost_affected [OF h1 h2, of "''1''" "mkComment ''2'' ''dee'' (Some [])"
        "[''u'']"]
    by simp
qed

section \<open>Deleting a comment\<close>

text \<open>
  C1: on the reply chain \<open>1 \<rightarrow> 2 \<rightarrow> 3\<close> the filter of \<^verbatim>\<open>handleDelete\<close> called with the id
  \<open>2\<close> returns the empty forest, not the forest of the comment \<open>1\<close> without replies:
  it drops the top-level comment that has the reply \<open>2\<close>. Called with the id \<open>3\<close>, a
  node two levels down, it returns the chain as it was.
\<close>

theorem handleDelete_update_reply_chain:
  "handleDelete_update replyChain ''2'' = [] \<and>
   handleDelete_update replyChain ''2'' \<noteq> [mkComment ''1'' ''ann'' (Some [])] \<and>
   ''3'' \<in> set (commentIds replyChain) \<and>
   handleDelete_update replyChain ''3'' = replyChain"
  by (simp add: replyChain_def handleDelete_update_def handleDelete_keeps_def mkComment_def)

text \<open>
  C2: adding the fresh leaf \<open>2\<close> under the top-level comment \<open>1\<close> and then deleting
  \<open>2\<close> gives the empty forest, not the forest before the insertion; adding the
  fresh leaf \<open>3\<close> under the nested comment \<open>2\<close> and then deleting \<open>3\<close> gives the forest
  that still contains \<open>3\<close>.
\<close>

theorem insert_then_delete_not_identity:
  "handleDelete_update
     (addReplyToComment [mkComment ''1'' ''ann'' (Some [])] ''1''
        (mkComment ''2'' ''bob'' (Some []))) ''2'' = [] \<and>
   [] \<noteq> [mkComment ''1'' ''ann'' (Some [])] \<and>
   handleDelete_update
     (addReplyToComment [mkComment ''1'' ''ann'' (Some [mkComment ''2'' ''bob'' (Some [])])]
        ''2'' (mkComment ''3'' ''cy'' (Some []))) ''3'' = replyChain \<and>
   replyChain \<noteq> [mkComment ''1'' ''ann'' (Some [mkComment ''2'' ''bob'' (Some [])])]"
  by (simp add: replyChain_def handleDelete_update_def handleDelete_keeps_def mkComment_def)

section \<open>The length of the comment text\<close>

lemma onChange_bounded: "length (commentText (onChange st v)) \<le> maxLength"
  by (simp add: onChange_def)

lemma dropWhile_replicate_append:
  "\<not> P x \<Longrightarrow> 0 < n \<Longrightarrow> dropWhile P (replicate n x @ ys) = replicate n x @ ys"
  by (cases n) simp_all

lemma not_isWhiteSpace: "\<not> isWhiteSpace 0x61" "\<not> isWhiteSpace 0xDE0A"
  by (simp_all add: isWhiteSpace_def)

text \<open>
  C10: after the textarea has stored a text of 500 code units, one click on an
  emoji of two code units leaves a stored text of 502 code units, more than
  \<^verbatim>\<open>maxLength\<close>, and that text is the body a submit sends.
\<close>

theorem emoji_click_exceeds_maxLength:
  "commentText (foldl handleEvent initialInput
      [Change (replicate 500 0x61), EmojiClick [0xD83D, 0xDE0A]]) =
     replicate 500 0x61 @ [0xD83D, 0xDE0A] \<and>
   length (commentText (foldl handleEvent initialInput
      [Change (replicate 500 0x61), EmojiClick [0xD83D, 0xDE0A]])) = 502 \<and>
   maxLength < 502 \<and>
   submittedText (foldl handleEvent initialInput
      [Change (replicate 500 0x61), EmojiClick [0xD83D, 0xDE0A]]) =
     Some (replicate 500 0x61 @ [0xD83D, 0xDE0A])"
proof -
  have t: "trim (replicate 500 0x61 @ [0xD83D, 0xDE0A]) = replicate 500 0x61 @ [0xD83D, 0xDE0A]"
    by (simp add: trim_def dropWhile_replicate_append not_isWhiteSpace)
  show ?thesis
    by (simp add: initialInput_def onChange_def handleEmojiClick_def maxLength_def
        submittedText_def t)
qed

end
